theory Spec2Isabelle
  imports Main "HOL-Library.AList"
begin

section \<open>Exceptions\<close>

text \<open>
  The exception classes that the modelled code raises, catches or lets through.
  \<open>VaultError\<close>, \<open>InvalidPath\<close> and \<open>UnexpectedError\<close> come from \<^verbatim>\<open>hvac.exceptions\<close>;
  \<open>ConnectionError\<close> and \<open>TimeoutError\<close> are the Python builtins that \<^verbatim>\<open>config.py\<close> names
  in its handler. \<open>RequestsConnectionError\<close> is \<^verbatim>\<open>requests.exceptions.ConnectionError\<close>,
  which the HTTP layer of hvac raises when the store cannot be reached; it derives from
  \<^verbatim>\<open>RequestException\<close> and \<^verbatim>\<open>IOError\<close>, not from the builtin \<^verbatim>\<open>ConnectionError\<close>.
  \<open>ValidationError\<close> is pydantic's. \<open>OtherException\<close> stands for every other subclass of
  \<^verbatim>\<open>Exception\<close>.
\<close>

datatype exc =
    VaultError
  | InvalidPath
  | UnexpectedError
  | ConnectionError
  | TimeoutError
  | KeyError
  | AttributeError
  | TypeError
  | RequestsConnectionError
  | ValidationError
  | OtherException

section \<open>Read/write connection router (\<^verbatim>\<open>db/session.py\<close>)\<close>

subsection \<open>Data\<close>

text \<open>
  A resolved \<^verbatim>\<open>PostgresConfig\<close>: five connection fields and the URI, which is
  \<^verbatim>\<open>Optional[str]\<close>.
\<close>

record PostgresConfig =
  HOST :: string
  PORT :: int
  USER :: string
  PASSWORD :: string
  DB :: string
  URI :: "string option"

text \<open>
  The object \<^verbatim>\<open>config.POSTGRES_CONFIG\<close> as \<^verbatim>\<open>create_engines\<close> inspects it: it is asked with
  \<^verbatim>\<open>hasattr\<close> for the attributes \<^verbatim>\<open>URI\<close>, \<^verbatim>\<open>MASTER\<close> and \<^verbatim>\<open>SLAVE\<close>. \<open>None\<close> means that the
  object has no such attribute, \<open>Some v\<close> that it has it with value \<open>v\<close>.
\<close>

record postgres_settings =
  attr_URI :: "string option option"
  attr_MASTER :: "PostgresConfig option"
  attr_SLAVE :: "PostgresConfig option"

text \<open>
  The declared type of \<^verbatim>\<open>Config.POSTGRES_CONFIG\<close> is \<^verbatim>\<open>PostgresMasterSlaveConfig\<close>: two
  fields, \<^verbatim>\<open>MASTER\<close> and \<^verbatim>\<open>SLAVE\<close>, each a \<^verbatim>\<open>PostgresConfig\<close>, and no other attribute
  (\<^verbatim>\<open>extra='ignore'\<close>). \<^verbatim>\<open>create_engines\<close> takes no argument: the object it inspects is
  always the \<^verbatim>\<open>POSTGRES_CONFIG\<close> of the module-level \<^verbatim>\<open>config = Config()\<close>.
\<close>

record PostgresMasterSlaveConfig =
  MASTER :: PostgresConfig
  SLAVE :: PostgresConfig

definition as_object :: "PostgresMasterSlaveConfig \<Rightarrow> postgres_settings" where
  "as_object c = \<lparr>attr_URI = None, attr_MASTER = Some (MASTER c), attr_SLAVE = Some (SLAVE c)\<rparr>"

text \<open>An \<^verbatim>\<open>AsyncEngine\<close> wraps the synchronous engine that \<^verbatim>\<open>get_bind\<close> hands out.\<close>

datatype 'e AsyncEngine = AsyncEngine (sync_engine: 'e)

text \<open>
  \<^verbatim>\<open>create_async_engine(url, pool_recycle=3600)\<close> belongs to SQLAlchemy; it is a parameter
  of the model, and it may raise.
\<close>

type_synonym 'e engine_factory = "string option \<Rightarrow> exc + 'e AsyncEngine"

text \<open>
  The two properties of a session that \<^verbatim>\<open>get_bind\<close> reads: the attribute
  \<^verbatim>\<open>_flushing\<close> and the result of \<^verbatim>\<open>in_transaction()\<close>.
\<close>

record session =
  flushing :: bool
  in_transaction :: bool

text \<open>
  The class of the \<^verbatim>\<open>clause\<close> argument. \<^verbatim>\<open>session.py\<close> imports \<^verbatim>\<open>Update\<close> and \<^verbatim>\<open>Delete\<close>
  from \<^verbatim>\<open>sqlalchemy\<close>, and \<^verbatim>\<open>Insert\<close> from \<^verbatim>\<open>sqlalchemy.dialects.mysql\<close>. The MySQL
  \<^verbatim>\<open>Insert\<close> is a subclass of the generic \<^verbatim>\<open>sqlalchemy.Insert\<close>, and so is the
  PostgreSQL one; neither the generic nor the PostgreSQL class is an instance of the
  MySQL class.
\<close>

datatype clause =
    Select
  | Update
  | Delete
  | Insert
  | MySQL_Insert
  | PostgreSQL_Insert
  | TextClause

subsection \<open>Operations\<close>

text \<open>\<^verbatim>\<open>d[k]\<close> on a dict: \<^verbatim>\<open>KeyError\<close> when the key is missing.\<close>

definition getitem :: "('k \<rightharpoonup> 'v) \<Rightarrow> 'k \<Rightarrow> exc + 'v" where
  "getitem d k = (case d k of None \<Rightarrow> Inl KeyError | Some v \<Rightarrow> Inr v)"

definition create_engines ::
  "'e engine_factory \<Rightarrow> postgres_settings \<Rightarrow> exc + (string \<rightharpoonup> 'e AsyncEngine)"
where
  "create_engines create_async_engine POSTGRES_CONFIG =
     (let result = Map.empty in
      case attr_URI POSTGRES_CONFIG of
        Some uri \<Rightarrow>
          (case create_async_engine uri of
             Inl e \<Rightarrow> Inl e
           | Inr engine \<Rightarrow> Inr (result(''single_node'' \<mapsto> engine)))
      | None \<Rightarrow>
          (case (attr_MASTER POSTGRES_CONFIG, attr_SLAVE POSTGRES_CONFIG) of
             (Some master, Some slave) \<Rightarrow>
               (case create_async_engine (URI master) of
                  Inl e \<Rightarrow> Inl e
                | Inr m \<Rightarrow>
                    (case create_async_engine (URI slave) of
                       Inl e \<Rightarrow> Inl e
                     | Inr s \<Rightarrow> Inr (result(''master'' \<mapsto> m, ''slave'' \<mapsto> s))))
           | _ \<Rightarrow> Inr result))"

text \<open>
  \<^verbatim>\<open>isinstance(clause, (Update, Insert, Delete))\<close>, where \<^verbatim>\<open>Insert\<close> is the name imported
  from \<^verbatim>\<open>sqlalchemy.dialects.mysql\<close>. The default \<^verbatim>\<open>clause=None\<close> is \<open>None\<close>.
\<close>

fun isinstance_Update_Insert_Delete :: "clause option \<Rightarrow> bool" where
  "isinstance_Update_Insert_Delete (Some Update) = True"
| "isinstance_Update_Insert_Delete (Some MySQL_Insert) = True"
| "isinstance_Update_Insert_Delete (Some Delete) = True"
| "isinstance_Update_Insert_Delete _ = False"

definition get_bind ::
  "(string \<rightharpoonup> 'e AsyncEngine) \<Rightarrow> session \<Rightarrow> clause option \<Rightarrow> exc + 'e"
where
  "get_bind engines self clause =
     (if ''single_node'' \<in> dom engines then
        map_sum id sync_engine (getitem engines ''single_node'')
      else if flushing self \<or> in_transaction self \<or> isinstance_Update_Insert_Delete clause then
        map_sum id sync_engine (getitem engines ''master'')
      else
        map_sum id sync_engine (getitem engines ''slave''))"

section \<open>Layered settings resolver (\<^verbatim>\<open>config.py\<close>)\<close>

subsection \<open>Python values and dicts\<close>

text \<open>
  The values of a decoded secret-store response. \<open>PDict\<close> is a Python dict: its items in
  insertion order, the keys distinct. Every other constructor is a value for which
  \<^verbatim>\<open>isinstance(value, dict)\<close> is false.
\<close>

datatype pyval =
    PNone
  | PBool bool
  | PInt int
  | PStr string
  | PDict "(string \<times> pyval) list"

type_synonym pydict = "(string \<times> pyval) list"

text \<open>\<^verbatim>\<open>d[k] = v\<close> is \<^const>\<open>AList.update\<close>: an existing key keeps its place, a new one goes last.\<close>

text \<open>\<^verbatim>\<open>d.update(other)\<close>.\<close>

definition dict_update :: "pydict \<Rightarrow> pydict \<Rightarrow> pydict" where
  "dict_update d other = fold (\<lambda>(k, v). AList.update k v) other d"

text \<open>\<^verbatim>\<open>d.get(k)\<close>, which is \<^verbatim>\<open>None\<close> for a missing key.\<close>

definition dict_get :: "pydict \<Rightarrow> string \<Rightarrow> pyval" where
  "dict_get d k = (case map_of d k of None \<Rightarrow> PNone | Some v \<Rightarrow> v)"

text \<open>
  \<^verbatim>\<open>obj.get(k, default)\<close> on a value that may not be a dict: only a dict has the method,
  anything else raises \<^verbatim>\<open>AttributeError\<close>.
\<close>

definition py_get :: "pyval \<Rightarrow> string \<Rightarrow> pyval \<Rightarrow> exc + pyval" where
  "py_get obj k dflt =
     (case obj of
        PDict d \<Rightarrow> (case map_of d k of None \<Rightarrow> Inr dflt | Some v \<Rightarrow> Inr v)
      | _ \<Rightarrow> Inl AttributeError)"

text \<open>\<^verbatim>\<open>str.lower()\<close> on ASCII text: the keys of the model are ASCII strings.\<close>

definition lower_char :: "char \<Rightarrow> char" where
  "lower_char c =
     (case map_of (zip ''ABCDEFGHIJKLMNOPQRSTUVWXYZ'' ''abcdefghijklmnopqrstuvwxyz'') c of
        Some l \<Rightarrow> l
      | None \<Rightarrow> c)"

definition lower :: "string \<Rightarrow> string" where
  "lower s = map lower_char s"

subsection \<open>The remote secret-store source\<close>

text \<open>
  What the source reads of a settings class: its name and its \<^verbatim>\<open>model_fields\<close>. A field
  whose annotation has \<^verbatim>\<open>model_fields\<close> of its own is a nested config class, with the
  \<^verbatim>\<open>env_prefix\<close> of its \<^verbatim>\<open>model_config\<close> and the names of its fields.
\<close>

datatype annotation =
    Scalar
  | ConfigModel string "string list"

record settings_class =
  cls_name :: string
  model_fields :: "(string \<times> annotation) list"

text \<open>
  The attributes of a \<^verbatim>\<open>VaultSettingsSource\<close> object. \<open>dotenv_vars\<close> is the memo; it
  starts as the class attribute \<^verbatim>\<open>None\<close>.
\<close>

record VaultSettingsSource =
  settings_cls :: settings_class
  case_sensitive :: bool
  dotenv_vars :: "pydict option"

text \<open>
  The surroundings of a call: the process environment and the secret store. An
  \<^verbatim>\<open>hvac.Client\<close> is its URL and token, each \<^verbatim>\<open>os.environ.get(...)\<close>; the two read
  functions take the client, the path and the mount point and give the decoded response
  or the exception that the request raises.
\<close>

type_synonym client = "string option \<times> string option"

record world =
  os_environ :: "string \<rightharpoonup> string"
  read_secret_version :: "client \<Rightarrow> string option \<Rightarrow> string option \<Rightarrow> exc + pyval"
  read_secret :: "client \<Rightarrow> string option \<Rightarrow> string option \<Rightarrow> exc + pyval"

text \<open>The observable effects: the records handed to the logger and the requests sent.\<close>

datatype log_record =
    Info string
  | Error string exc

datatype request = KV_v2 | KV_v1

record effects =
  logged :: "log_record list"
  requests :: "request list"

definition logger_info :: "string \<Rightarrow> effects \<Rightarrow> effects" where
  "logger_info msg fx = fx\<lparr>logged := logged fx @ [Info msg]\<rparr>"

definition logger_error :: "string \<Rightarrow> exc \<Rightarrow> effects \<Rightarrow> effects" where
  "logger_error msg e fx = fx\<lparr>logged := logged fx @ [Error msg e]\<rparr>"

definition send :: "request \<Rightarrow> effects \<Rightarrow> effects" where
  "send r fx = fx\<lparr>requests := requests fx @ [r]\<rparr>"

text \<open>
  The loop of \<^verbatim>\<open>flatten_json\<close> over \<^verbatim>\<open>json_obj.items()\<close>, with the dict \<^verbatim>\<open>items\<close> that
  it fills.
\<close>

function flatten_items :: "pydict \<Rightarrow> string \<Rightarrow> pydict \<Rightarrow> pydict" where
  "flatten_items [] prefix items = items"
| "flatten_items ((key, value) # rest) prefix items =
     (let key_with_prefix = (if prefix \<noteq> [] then prefix @ ''_'' @ key else key) in
      case value of
        PDict d \<Rightarrow>
          flatten_items rest prefix (dict_update items (flatten_items d key_with_prefix []))
      | _ \<Rightarrow> flatten_items rest prefix (AList.update key_with_prefix value items))"
  by pat_completeness auto
termination
  by (relation "measure (\<lambda>(d, p, i). size_list (size_prod (\<lambda>_. 0) size) d)") auto

text \<open>
  \<^verbatim>\<open>flatten_json(json_obj, prefix)\<close>. A \<^verbatim>\<open>json_obj\<close> that is no dict has no \<^verbatim>\<open>items\<close>.
\<close>

definition flatten_json :: "pyval \<Rightarrow> string \<Rightarrow> exc + pydict" where
  "flatten_json json_obj prefix =
     (case json_obj of
        PDict d \<Rightarrow> Inr (flatten_items d prefix [])
      | _ \<Rightarrow> Inl AttributeError)"

text \<open>The comprehension \<^verbatim>\<open>{k.lower(): v for k, v in d.items()}\<close>.\<close>

definition lower_keys :: "pydict \<Rightarrow> pydict" where
  "lower_keys d = fold (\<lambda>(k, v). AList.update (lower k) v) d []"

text \<open>
  The body of the inner \<^verbatim>\<open>try\<close> of \<^verbatim>\<open>_read_vault_config\<close>, up to the assignment of
  \<^verbatim>\<open>secret_data\<close>: the KV v2 read, whose data are in \<^verbatim>\<open>response['data']['data']\<close>.
\<close>

definition kv_v2_attempt :: "world \<Rightarrow> client \<Rightarrow> exc + pyval" where
  "kv_v2_attempt w client =
     (case read_secret_version w client (os_environ w ''VAULT_PATH'')
             (os_environ w ''VAULT_NAMESPACE'') of
        Inl e \<Rightarrow> Inl e
      | Inr response \<Rightarrow>
          (case py_get response ''data'' (PDict []) of
             Inl e \<Rightarrow> Inl e
           | Inr d \<Rightarrow> py_get d ''data'' (PDict [])))"

text \<open>
  The body of the inner \<^verbatim>\<open>except\<close>, after the log call: the KV v1 read, whose data are
  in \<^verbatim>\<open>response['data']\<close>.
\<close>

definition kv_v1_attempt :: "world \<Rightarrow> client \<Rightarrow> exc + pyval" where
  "kv_v1_attempt w client =
     (case read_secret w client (os_environ w ''VAULT_PATH'')
             (os_environ w ''VAULT_NAMESPACE'') of
        Inl e \<Rightarrow> Inl e
      | Inr response \<Rightarrow> py_get response ''data'' (PDict []))"

text \<open>
  The inner \<^verbatim>\<open>try\<close> statement: \<^verbatim>\<open>except Exception\<close> catches every exception of the
  first attempt. The result is \<^verbatim>\<open>secret_data\<close>, or the exception that leaves the
  statement.
\<close>

definition read_kv :: "world \<Rightarrow> client \<Rightarrow> effects \<Rightarrow> (exc + pyval) \<times> effects" where
  "read_kv w client fx =
     (case kv_v2_attempt w client of
        Inr secret_data \<Rightarrow> (Inr secret_data, logger_info ''Using KV v2 engine'' (send KV_v2 fx))
      | Inl e \<Rightarrow>
          (let fx1 = send KV_v1 (logger_error ''Error using kv2'' e (send KV_v2 fx)) in
           case kv_v1_attempt w client of
             Inl e1 \<Rightarrow> (Inl e1, fx1)
           | Inr secret_data \<Rightarrow> (Inr secret_data, logger_info ''Using KV v1 engine'' fx1)))"

text \<open>
  The end of \<^verbatim>\<open>_read_vault_config\<close>, after the \<^verbatim>\<open>try\<close> statement has been left
  normally: the keys are lowercased unless \<^verbatim>\<open>case_sensitive\<close>, and the memo is returned.
\<close>

definition finish ::
  "bool \<Rightarrow> pydict \<Rightarrow> VaultSettingsSource \<Rightarrow> effects
     \<Rightarrow> (exc + pydict) \<times> VaultSettingsSource \<times> effects"
where
  "finish case_sens vars self fx =
     (let vars' = (if \<not> case_sens then lower_keys vars else vars)
      in (Inr vars', self\<lparr>dotenv_vars := Some vars'\<rparr>, fx))"

text \<open>
  \<^verbatim>\<open>_read_vault_config(self, case_sensitive)\<close>. The \<^verbatim>\<open>finally\<close> clause stores the local
  \<^verbatim>\<open>dotenv_vars\<close>, which is still \<^verbatim>\<open>{}\<close> when an exception has been raised, whether
  a handler caught the exception or not.
\<close>

definition read_vault_config ::
  "world \<Rightarrow> bool \<Rightarrow> VaultSettingsSource \<Rightarrow> effects
     \<Rightarrow> (exc + pydict) \<times> VaultSettingsSource \<times> effects"
where
  "read_vault_config w case_sens self fx =
     (case dotenv_vars self of
        Some vars \<Rightarrow> (Inr vars, self, fx)
      | None \<Rightarrow>
          if ''VAULT_HOST'' \<notin> dom (os_environ w) \<or> ''VAULT_TOKEN'' \<notin> dom (os_environ w) then
            (Inr [], self\<lparr>dotenv_vars := Some []\<rparr>, fx)
          else
            (let client = (os_environ w ''VAULT_HOST'', os_environ w ''VAULT_TOKEN'');
                 (secret_data, fx1) = read_kv w client fx;
                 flat = (case secret_data of
                           Inl e \<Rightarrow> Inl e
                         | Inr sd \<Rightarrow> flatten_json sd [])
             in case flat of
                  Inr vars \<Rightarrow> finish case_sens vars self fx1
                | Inl e \<Rightarrow>
                    if e \<in> {VaultError, InvalidPath, UnexpectedError} then
                      finish case_sens [] self (logger_error ''Error reading from Vault'' e fx1)
                    else if e \<in> {ConnectionError, TimeoutError} then
                      finish case_sens [] self
                        (logger_error ''Connection error with Vault'' e fx1)
                    else
                      (Inl e, self\<lparr>dotenv_vars := Some []\<rparr>, fx1)))"

text \<open>\<^verbatim>\<open>get_field_value(self, field, field_info)\<close>.\<close>

definition get_field_value ::
  "world \<Rightarrow> string \<Rightarrow> annotation \<Rightarrow> VaultSettingsSource \<Rightarrow> effects
     \<Rightarrow> (exc + pyval \<times> string) \<times> VaultSettingsSource \<times> effects"
where
  "get_field_value w field field_info self fx =
     (case read_vault_config w (case_sensitive self) self fx of
        (Inl e, self', fx') \<Rightarrow> (Inl e, self', fx')
      | (Inr env_val, self', fx') \<Rightarrow>
          (case field_info of
             ConfigModel prefix nested_fields \<Rightarrow>
               (let nested_values =
                      fold (\<lambda>nested_field nested_values.
                              let env_key = lower (prefix @ nested_field) in
                              if env_key \<in> fst ` set env_val
                              then AList.update nested_field (dict_get env_val env_key)
                                     nested_values
                              else nested_values)
                        nested_fields []
                in (Inr (PDict nested_values, field), self', fx'))
           | Scalar \<Rightarrow> (Inr (dict_get env_val (lower field), field), self', fx')))"

text \<open>
  The loop of \<^verbatim>\<open>__call__\<close> over \<^verbatim>\<open>self.settings_cls.model_fields.items()\<close>, with the
  dict \<^verbatim>\<open>result_env_dict\<close> that it fills.
\<close>

fun call_loop ::
  "world \<Rightarrow> (string \<times> annotation) list \<Rightarrow> pydict \<Rightarrow> VaultSettingsSource \<Rightarrow> effects
     \<Rightarrow> (exc + pydict) \<times> VaultSettingsSource \<times> effects"
where
  "call_loop w [] result_env_dict self fx = (Inr result_env_dict, self, fx)"
| "call_loop w ((field_name, field) # rest) result_env_dict self fx =
     (case get_field_value w field_name field self fx of
        (Inl e, self', fx') \<Rightarrow> (Inl e, self', fx')
      | (Inr (field_value, field_key), self', fx') \<Rightarrow>
          call_loop w rest
            (if field_value \<noteq> PNone
             then AList.update field_key field_value result_env_dict
             else result_env_dict)
            self' fx')"

text \<open>\<^verbatim>\<open>__call__(self)\<close>.\<close>

definition call ::
  "world \<Rightarrow> VaultSettingsSource \<Rightarrow> effects \<Rightarrow> (exc + pydict) \<times> VaultSettingsSource \<times> effects"
where
  "call w self fx = call_loop w (model_fields (settings_cls self)) [] self fx"

subsection \<open>The singleton\<close>

text \<open>
  Objects live in a store; \<open>cls_instance\<close> is the class attribute \<^verbatim>\<open>_instance\<close>, a
  reference into the store or \<^verbatim>\<open>None\<close>.
\<close>

record process =
  heap :: "nat \<rightharpoonup> VaultSettingsSource"
  next_addr :: nat
  cls_instance :: "nat option"

text \<open>
  The object that \<^verbatim>\<open>super().__new__(cls)\<close> gives: it has no attribute of its own, so
  \<open>dotenv_vars\<close> reads the class attribute \<^verbatim>\<open>None\<close>. The other two attributes are set
  by \<^verbatim>\<open>__init__\<close>, which runs after every \<^verbatim>\<open>__new__\<close>, before anything reads them.
\<close>

definition blank :: VaultSettingsSource where
  "blank = \<lparr>settings_cls = \<lparr>cls_name = [], model_fields = []\<rparr>,
            case_sensitive = False, dotenv_vars = None\<rparr>"

text \<open>\<^verbatim>\<open>__new__(cls, settings_cls, case_sensitive)\<close>; it reads neither argument.\<close>

definition new :: "process \<Rightarrow> nat \<times> process" where
  "new p =
     (case cls_instance p of
        None \<Rightarrow>
          (let a = next_addr p
           in (a, p\<lparr>heap := (heap p)(a \<mapsto> blank), next_addr := Suc a, cls_instance := Some a\<rparr>))
      | Some a \<Rightarrow> (a, p))"

text \<open>
  \<^verbatim>\<open>__init__(self, settings_cls, case_sensitive)\<close>: \<^verbatim>\<open>super().__init__\<close> stores the
  settings class, the body stores the flag. The memo is not touched.
\<close>

definition init :: "nat \<Rightarrow> settings_class \<Rightarrow> bool \<Rightarrow> process \<Rightarrow> process" where
  "init a cls case_sens p =
     (case heap p a of
        None \<Rightarrow> p
      | Some self \<Rightarrow>
          p\<lparr>heap := (heap p)(a \<mapsto> self\<lparr>settings_cls := cls, case_sensitive := case_sens\<rparr>)\<rparr>)"

text \<open>The call \<^verbatim>\<open>VaultSettingsSource(settings_cls, case_sensitive)\<close>.\<close>

definition construct :: "settings_class \<Rightarrow> bool \<Rightarrow> process \<Rightarrow> nat \<times> process" where
  "construct cls case_sens p = (let (a, p1) = new p in (a, init a cls case_sens p1))"

text \<open>Calling the source object at address \<open>a\<close>: \<^verbatim>\<open>source()\<close>.\<close>

definition call_at ::
  "world \<Rightarrow> nat \<Rightarrow> process \<Rightarrow> effects \<Rightarrow> (exc + pydict) \<times> process \<times> effects"
where
  "call_at w a p fx =
     (case heap p a of
        None \<Rightarrow> (Inl AttributeError, p, fx)
      | Some self \<Rightarrow>
          (case call w self fx of
             (r, self', fx') \<Rightarrow> (r, p\<lparr>heap := (heap p)(a \<mapsto> self')\<rparr>, fx')))"

text \<open>
  A process that builds one settings object after the other: each time the source is
  constructed for the class, as \<^verbatim>\<open>settings_customise_sources\<close> does, and called. The
  surroundings may differ from one time to the next. The result lists the addresses of the
  constructed sources and what each call gave.
\<close>

fun build_all ::
  "(world \<times> settings_class) list \<Rightarrow> process \<Rightarrow> effects
     \<Rightarrow> (nat \<times> (exc + pydict)) list \<times> process \<times> effects"
where
  "build_all [] p fx = ([], p, fx)"
| "build_all ((w, cls) # rest) p fx =
     (let (a, p1) = construct cls False p in
      case call_at w a p1 fx of
        (r, p2, fx2) \<Rightarrow>
          (case build_all rest p2 fx2 of
             (rs, p3, fx3) \<Rightarrow> ((a, r) # rs, p3, fx3)))"

text \<open>
  Several lookups on one source object, one after the other, each in its own
  surroundings.
\<close>

fun lookups ::
  "(world \<times> bool) list \<Rightarrow> VaultSettingsSource \<Rightarrow> effects
     \<Rightarrow> (exc + pydict) list \<times> VaultSettingsSource \<times> effects"
where
  "lookups [] self fx = ([], self, fx)"
| "lookups ((w, case_sens) # rest) self fx =
     (case read_vault_config w case_sens self fx of
        (r, self', fx') \<Rightarrow>
          (case lookups rest self' fx' of
             (rs, self'', fx'') \<Rightarrow> (r # rs, self'', fx'')))"

definition start :: process where
  "start = \<lparr>heap = Map.empty, next_addr = 0, cls_instance = None\<rparr>"

definition no_effects :: effects where
  "no_effects = \<lparr>logged = [], requests = []\<rparr>"

subsection \<open>Source order and merge\<close>






subsection \<open>The derived URI\<close>










section \<open>What the specification says of flattening\<close>

text \<open>
  The leaves of a nested mapping, each with the path of keys that leads to it, in the
  order of the mapping.
\<close>

function leaves :: "pydict \<Rightarrow> (string list \<times> pyval) list" where
  "leaves [] = []"
| "leaves ((key, value) # rest) =
     (case value of
        PDict d \<Rightarrow> map (\<lambda>(path, v). (key # path, v)) (leaves d) @ leaves rest
      | _ \<Rightarrow> ([key], value) # leaves rest)"
  by pat_completeness auto
termination
  by (relation "measure (size_list (size_prod (\<lambda>_. 0) size))") auto

text \<open>The keys of a path joined by the separator \<^verbatim>\<open>_\<close>.\<close>

fun join_path :: "string list \<Rightarrow> string" where
  "join_path [] = []"
| "join_path [key] = key"
| "join_path (key # keys) = key @ ''_'' @ join_path keys"

section \<open>Concrete inputs\<close>


text \<open>An engine factory that never fails and keeps the URL it was given.\<close>

definition engine_of_url :: "string option engine_factory" where
  "engine_of_url url = Inr (AsyncEngine url)"

text \<open>A configuration object with none of the three attributes.\<close>

definition no_topology :: postgres_settings where
  "no_topology = \<lparr>attr_URI = None, attr_MASTER = None, attr_SLAVE = None\<rparr>"

text \<open>
  Surroundings with the endpoint and the token set, in which the KV v2 request raises
  \<open>e2\<close> and the KV v1 request raises \<open>e1\<close>.
\<close>

definition failing_store :: "exc \<Rightarrow> exc \<Rightarrow> world" where
  "failing_store e2 e1 =
     \<lparr>os_environ = [''VAULT_HOST'' \<mapsto> ''http://vault:8200'', ''VAULT_TOKEN'' \<mapsto> ''token''],
      read_secret_version = (\<lambda>client path mount_point. Inl e2),
      read_secret = (\<lambda>client path mount_point. Inl e1)\<rparr>"

text \<open>
  Surroundings with the endpoint and the token set, in which the KV v2 request answers
  with the given secret data.
\<close>

definition serving_store :: "pyval \<Rightarrow> world" where
  "serving_store secret_data =
     \<lparr>os_environ = [''VAULT_HOST'' \<mapsto> ''http://vault:8200'', ''VAULT_TOKEN'' \<mapsto> ''token''],
      read_secret_version =
        (\<lambda>client path mount_point. Inr (PDict [(''data'', PDict [(''data'', secret_data)])])),
      read_secret = (\<lambda>client path mount_point. Inr (PDict [(''data'', secret_data)]))\<rparr>"

text \<open>Surroundings in which neither variable of the secret store is set.\<close>

definition local_world :: world where
  "local_world =
     \<lparr>os_environ = Map.empty,
      read_secret_version = (\<lambda>client path mount_point. Inl ConnectionError),
      read_secret = (\<lambda>client path mount_point. Inl ConnectionError)\<rparr>"

text \<open>
  Two settings classes of \<^verbatim>\<open>config.py\<close> as the source sees them: \<^verbatim>\<open>PostgresConfig\<close> has
  scalar fields only; \<^verbatim>\<open>Config\<close> has two nested config classes, \<^verbatim>\<open>CORSConfig\<close> with the
  prefix \<^verbatim>\<open>CORS_\<close> and \<^verbatim>\<open>PostgresMasterSlaveConfig\<close> with no prefix.
\<close>

definition PostgresConfig_cls :: settings_class where
  "PostgresConfig_cls =
     \<lparr>cls_name = ''PostgresConfig'',
      model_fields = [(''HOST'', Scalar), (''PORT'', Scalar), (''USER'', Scalar),
                      (''PASSWORD'', Scalar), (''DB'', Scalar), (''URI'', Scalar)]\<rparr>"

definition Config_cls :: settings_class where
  "Config_cls =
     \<lparr>cls_name = ''Config'',
      model_fields = [(''PROJECT_NAME'', Scalar), (''ENVIRONMENT'', Scalar), (''DEBUG'', Scalar),
                      (''CORS_CONFIG'', ConfigModel ''CORS_'' [''ORIGINS'', ''METHODS'', ''HEADERS'']),
                      (''POSTGRES_CONFIG'', ConfigModel [] [''MASTER'', ''SLAVE''])]\<rparr>"

section \<open>The router\<close>

text \<open>
  With a single-node pool every operation binds to it; with a primary and a replica pool
  the primary is chosen exactly when the session is flushing, or has an open transaction,
  or the clause passes the \<^verbatim>\<open>isinstance\<close> test of \<^verbatim>\<open>get_bind\<close>. The decision depends on
  the session only through the two values read at the call, so it follows every change
  of them from one operation to the next.
\<close>

lemma get_bind_single_node:
  "engines ''single_node'' = Some eng \<Longrightarrow> get_bind engines s c = Inr (sync_engine eng)"
  by (simp add: get_bind_def getitem_def dom_def)

lemma get_bind_primary_replica:
  assumes "engines ''single_node'' = None"
    and "engines ''master'' = Some m" and "engines ''slave'' = Some r"
  shows "get_bind engines s c =
           (if flushing s \<or> in_transaction s \<or> isinstance_Update_Insert_Delete c
            then Inr (sync_engine m) else Inr (sync_engine r))"
  using assms by (simp add: get_bind_def getitem_def dom_def)

text \<open>
  Claim C3, at the input where the code leaves it: with a primary and a replica pool, a
  session that is not flushing and has no open transaction, and a clause built by the
  generic \<^verbatim>\<open>sqlalchemy.insert\<close> or by the PostgreSQL one, \<^verbatim>\<open>get_bind\<close> gives the replica
  engine. The clause is a write, but it is no instance of the MySQL \<^verbatim>\<open>Insert\<close> class that
  \<^verbatim>\<open>session.py\<close> imports.
\<close>

theorem get_bind_generic_insert_replica:
  "get_bind [''master'' \<mapsto> AsyncEngine ''primary'', ''slave'' \<mapsto> AsyncEngine ''replica'']
     \<lparr>flushing = False, in_transaction = False\<rparr> (Some Insert) = Inr ''replica'' \<and>
   get_bind [''master'' \<mapsto> AsyncEngine ''primary'', ''slave'' \<mapsto> AsyncEngine ''replica'']
     \<lparr>flushing = False, in_transaction = False\<rparr> (Some PostgreSQL_Insert) = Inr ''replica''"
  by (simp add: get_bind_def getitem_def dom_def)

text \<open>
  Claim C2 as stated fails: for a configuration object with neither a \<^verbatim>\<open>URI\<close> attribute
  nor the pair \<^verbatim>\<open>MASTER\<close>, \<^verbatim>\<open>SLAVE\<close>, \<^verbatim>\<open>create_engines\<close> returns normally, with an empty
  dict.
\<close>

theorem create_engines_no_topology_counterexample:
  "create_engines engine_of_url no_topology = Inr Map.empty"
  by (simp add: create_engines_def no_topology_def)

text \<open>
  Claim C2, amended: if the configuration object has no \<^verbatim>\<open>URI\<close> attribute and lacks
  \<^verbatim>\<open>MASTER\<close> or \<^verbatim>\<open>SLAVE\<close>, then \<^verbatim>\<open>create_engines\<close> raises nothing and returns the empty
  dict of engines, whatever the engine factory does.
\<close>

theorem create_engines_neither_returns_empty:
  assumes "attr_URI cfg = None"
    and "attr_MASTER cfg = None \<or> attr_SLAVE cfg = None"
  shows "create_engines create_async_engine cfg = Inr Map.empty"
  using assms by (auto simp: create_engines_def Let_def split: option.splits)

theorem create_engines_neither_returns_empty_witness:
  "create_engines engine_of_url \<lparr>attr_URI = None, attr_MASTER = None,
      attr_SLAVE = Some \<lparr>HOST = ''db'', PORT = 5432, USER = ''u'', PASSWORD = ''p'', DB = ''d'',
        URI = Some ''postgresql+asyncpg://u:p@db:5432/d''\<rparr>\<rparr> = Inr Map.empty"
  by (rule create_engines_neither_returns_empty) simp_all

text \<open>
  A pool set built from a configuration object with a \<^verbatim>\<open>URI\<close> attribute, or with both
  \<^verbatim>\<open>MASTER\<close> and \<^verbatim>\<open>SLAVE\<close>, holds every pool that \<^verbatim>\<open>get_bind\<close> asks for.
\<close>

lemma get_bind_resolves_to_existing_pool:
  assumes "create_engines create_async_engine cfg = Inr engines"
    and "attr_URI cfg \<noteq> None \<or> (attr_MASTER cfg \<noteq> None \<and> attr_SLAVE cfg \<noteq> None)"
  shows "\<exists>eng \<in> ran engines. get_bind engines s c = Inr (sync_engine eng)"
  using assms
  by (auto simp: create_engines_def Let_def get_bind_def getitem_def ran_def
           split: option.splits sum.splits)

text \<open>
  Claim C6: for every pool set that \<^verbatim>\<open>create_engines\<close> constructs from the
  \<^verbatim>\<open>POSTGRES_CONFIG\<close> of the program, whatever its field values and whatever the engine
  factory returns, and for every session state and clause, \<^verbatim>\<open>get_bind\<close> raises nothing
  and returns the engine of a pool of that set; and on any pool set with a single-node pool
  it returns the engine of that pool.
\<close>

theorem get_bind_never_raises:
  "(create_engines create_async_engine (as_object POSTGRES_CONFIG) = Inr engines \<longrightarrow>
      (\<exists>eng \<in> ran engines. get_bind engines s c = Inr (sync_engine eng))) \<and>
   (pools ''single_node'' = Some single \<longrightarrow> get_bind pools s c = Inr (sync_engine single))"
proof (intro conjI impI)
  assume "create_engines create_async_engine (as_object POSTGRES_CONFIG) = Inr engines"
  then show "\<exists>eng \<in> ran engines. get_bind engines s c = Inr (sync_engine eng)"
    by (rule get_bind_resolves_to_existing_pool) (simp add: as_object_def)
next
  assume "pools ''single_node'' = Some single"
  then show "get_bind pools s c = Inr (sync_engine single)"
    by (rule get_bind_single_node)
qed

theorem get_bind_never_raises_witness:
  "get_bind [''master'' \<mapsto> AsyncEngine (Some ''postgresql+asyncpg://u:p@db1:5432/d''),
             ''slave'' \<mapsto> AsyncEngine (Some ''postgresql+asyncpg://u:p@db2:5432/d'')]
     \<lparr>flushing = False, in_transaction = False\<rparr> (Some Select) =
     Inr (Some ''postgresql+asyncpg://u:p@db2:5432/d'')"
proof -
  let ?m = "\<lparr>HOST = ''db1'', PORT = 5432, USER = ''u'', PASSWORD = ''p'', DB = ''d'',
             URI = Some ''postgresql+asyncpg://u:p@db1:5432/d''\<rparr>"
  let ?s = "\<lparr>HOST = ''db2'', PORT = 5432, USER = ''u'', PASSWORD = ''p'', DB = ''d'',
             URI = Some ''postgresql+asyncpg://u:p@db2:5432/d''\<rparr>"
  let ?engines = "[''master'' \<mapsto> AsyncEngine (Some ''postgresql+asyncpg://u:p@db1:5432/d''),
                   ''slave'' \<mapsto> AsyncEngine (Some ''postgresql+asyncpg://u:p@db2:5432/d'')]"
  have built: "create_engines engine_of_url (as_object \<lparr>MASTER = ?m, SLAVE = ?s\<rparr>) = Inr ?engines"
    by (simp add: create_engines_def as_object_def engine_of_url_def)
  from get_bind_never_raises [of engine_of_url "\<lparr>MASTER = ?m, SLAVE = ?s\<rparr>" ?engines
         "\<lparr>flushing = False, in_transaction = False\<rparr>" "Some Select"] built
  obtain eng where "eng \<in> ran ?engines"
    and "get_bind ?engines \<lparr>flushing = False, in_transaction = False\<rparr> (Some Select) =
           Inr (sync_engine eng)"
    by blast
  then show ?thesis
    by (simp add: get_bind_def getitem_def dom_def)
qed

section \<open>The secret-store source\<close>

text \<open>Once the memo is set, a lookup returns it and changes nothing.\<close>

lemma read_vault_config_memo:
  "dotenv_vars self = Some m \<Longrightarrow> read_vault_config w cs self fx = (Inr m, self, fx)"
  by (simp add: read_vault_config_def)

lemma lower_keys_Nil [simp]: "lower_keys [] = []"
  by (simp add: lower_keys_def)

text \<open>Without the endpoint or the token, the first lookup stores and returns the empty dict.\<close>

lemma read_vault_config_inactive:
  assumes "''VAULT_HOST'' \<notin> dom (os_environ w) \<or> ''VAULT_TOKEN'' \<notin> dom (os_environ w)"
    and "dotenv_vars self = None"
  shows "read_vault_config w cs self fx = (Inr [], self\<lparr>dotenv_vars := Some []\<rparr>, fx)"
  using assms by (auto simp: read_vault_config_def)

text \<open>The requests of the inner \<^verbatim>\<open>try\<close> statement, and when it fails.\<close>

lemma requests_read_kv:
  "requests (snd (read_kv w c fx)) =
     requests fx @ (if isl (kv_v2_attempt w c) then [KV_v2, KV_v1] else [KV_v2])"
  by (auto simp: read_kv_def send_def logger_info_def logger_error_def Let_def
           split: sum.splits)

lemma read_kv_failed:
  "fst (read_kv w c fx) = Inl e \<longleftrightarrow>
     isl (kv_v2_attempt w c) \<and> kv_v1_attempt w c = Inl e"
  by (auto simp: read_kv_def Let_def split: sum.splits)

text \<open>Every lookup leaves the memo set, also when it raises.\<close>

lemma read_vault_config_sets_memo:
  assumes "read_vault_config w cs self fx = (r, self', fx')"
  shows "\<exists>m. dotenv_vars self' = Some m \<and> (r = Inr m \<or> (\<exists>e. r = Inl e \<and> dotenv_vars self = None \<and> m = []))"
  using assms
  by (auto simp: read_vault_config_def finish_def Let_def
           split: option.splits if_splits sum.splits prod.splits)

lemma read_vault_config_requests:
  assumes "read_vault_config w cs self fx = (r, self', fx')"
  shows "requests fx' = requests fx \<or> requests fx' = requests fx @ [KV_v2]
         \<or> requests fx' = requests fx @ [KV_v2, KV_v1]"
proof (cases "dotenv_vars self = None \<and> ''VAULT_HOST'' \<in> dom (os_environ w) \<and> ''VAULT_TOKEN'' \<in> dom (os_environ w)")
  case False
  then have "fx' = fx" using assms
    by (auto simp: read_vault_config_def split: option.splits if_splits)
  then show ?thesis by simp
next
  case True
  define c where "c = (os_environ w ''VAULT_HOST'', os_environ w ''VAULT_TOKEN'')"
  obtain sd fx1 where rk: "read_kv w c fx = (sd, fx1)" by (cases "read_kv w c fx")
  have "requests fx' = requests fx1"
    using assms True rk
    by (auto simp: read_vault_config_def c_def finish_def Let_def logger_error_def
             split: sum.splits if_splits)
  moreover have "requests fx1 = requests fx @ (if isl (kv_v2_attempt w c) then [KV_v2, KV_v1] else [KV_v2])"
    using requests_read_kv [of w c fx] rk by simp
  ultimately show ?thesis by auto
qed

lemma lookups_memo:
  "dotenv_vars self = Some m \<Longrightarrow>
     lookups ws self fx = (replicate (length ws) (Inr m), self, fx)"
  by (induction ws) (auto simp: read_vault_config_memo)


text \<open>
  Claim C9: for a source object whose memo is not yet set, and lookups in surroundings that
  lack \<^verbatim>\<open>VAULT_HOST\<close> or \<^verbatim>\<open>VAULT_TOKEN\<close>, every lookup returns the empty map, none
  raises, and the effects are unchanged: no request is sent and nothing is logged.
\<close>

theorem vault_source_inactive:
  assumes "\<forall>(w, cs) \<in> set ws.
             ''VAULT_HOST'' \<notin> dom (os_environ w) \<or> ''VAULT_TOKEN'' \<notin> dom (os_environ w)"
    and "dotenv_vars self = None" and "ws \<noteq> []"
  shows "lookups ws self fx =
           (replicate (length ws) (Inr []), self\<lparr>dotenv_vars := Some []\<rparr>, fx)"
proof -
  obtain w cs rest where ws: "ws = (w, cs) # rest"
    using assms(3) by (cases ws) auto
  have absent: "''VAULT_HOST'' \<notin> dom (os_environ w) \<or> ''VAULT_TOKEN'' \<notin> dom (os_environ w)"
    using assms(1) ws by auto
  have first: "read_vault_config w cs self fx = (Inr [], self\<lparr>dotenv_vars := Some []\<rparr>, fx)"
    using read_vault_config_inactive [OF absent assms(2)] .
  have "lookups rest (self\<lparr>dotenv_vars := Some []\<rparr>) fx =
          (replicate (length rest) (Inr []), self\<lparr>dotenv_vars := Some []\<rparr>, fx)"
    by (rule lookups_memo) simp
  with first show ?thesis by (simp add: ws)
qed

theorem vault_source_inactive_witness:
  "lookups [(local_world, False), (local_world, False)] blank no_effects =
     ([Inr [], Inr []], blank\<lparr>dotenv_vars := Some []\<rparr>, no_effects)"
  using vault_source_inactive [of "[(local_world, False), (local_world, False)]" blank no_effects]
  by (simp add: local_world_def blank_def)

text \<open>
  The same at the level of \<^verbatim>\<open>__call__\<close>: without the endpoint or the token the call raises
  nothing, has no effect, and yields no scalar value; what it yields is the empty dict for
  each nested config field of the settings class.
\<close>

lemma set_update_subset: "set (AList.update k v al) \<subseteq> insert (k, v) (set al)"
  by (induction al) auto

lemma get_field_value_empty_memo:
  assumes "dotenv_vars self = Some []"
  shows "get_field_value w field field_info self fx =
           (Inr (case field_info of Scalar \<Rightarrow> PNone | ConfigModel prefix nested \<Rightarrow> PDict [],
                 field), self, fx)"
proof (cases field_info)
  case Scalar
  then show ?thesis
    using assms by (simp add: get_field_value_def read_vault_config_memo dict_get_def)
next
  case (ConfigModel prefix nested)
  have "fold (\<lambda>nested_field nested_values. nested_values) nested ([] :: pydict) = []"
    by (induction nested) simp_all
  then show ?thesis
    using assms ConfigModel by (simp add: get_field_value_def read_vault_config_memo)
qed

lemma call_loop_empty_memo:
  assumes "dotenv_vars self = Some []" and "\<forall>kv \<in> set acc. snd kv = PDict []"
  shows "\<exists>res. call_loop w flds acc self fx = (Inr res, self, fx) \<and>
               (\<forall>kv \<in> set res. snd kv = PDict [])"
  using assms(2)
proof (induction flds arbitrary: acc)
  case Nil
  then show ?case by simp
next
  case (Cons f flds)
  obtain field_name field_info where f: "f = (field_name, field_info)" by (cases f)
  show ?case
  proof (cases field_info)
    case Scalar
    then show ?thesis
      using Cons.IH [OF Cons.prems] by (simp add: f get_field_value_empty_memo [OF assms(1)])
  next
    case (ConfigModel prefix nested)
    have "\<forall>kv \<in> set (AList.update field_name (PDict []) acc). snd kv = PDict []"
      using Cons.prems set_update_subset [of field_name "PDict []" acc] by auto
    from Cons.IH [OF this] show ?thesis
      by (simp add: f ConfigModel get_field_value_empty_memo [OF assms(1)])
  qed
qed

lemma call_inactive:
  assumes "''VAULT_HOST'' \<notin> dom (os_environ w) \<or> ''VAULT_TOKEN'' \<notin> dom (os_environ w)"
    and "dotenv_vars self = None"
  shows "\<exists>res self'. call w self fx = (Inr res, self', fx) \<and>
                     (\<forall>kv \<in> set res. snd kv = PDict [])"
proof (cases "model_fields (settings_cls self)")
  case Nil
  then show ?thesis by (simp add: call_def)
next
  case (Cons f flds)
  obtain field_name field_info where f: "f = (field_name, field_info)" by (cases f)
  let ?self1 = "self\<lparr>dotenv_vars := Some []\<rparr>"
  have memo: "dotenv_vars ?self1 = Some []" by simp
  have first: "get_field_value w field_name field_info self fx =
                 get_field_value w field_name field_info ?self1 fx"
    using read_vault_config_inactive [OF assms, of "case_sensitive self" fx]
    by (simp add: get_field_value_def read_vault_config_memo [OF memo])
  have "call w self fx = call_loop w (f # flds) [] ?self1 fx"
    by (simp add: call_def Cons f first get_field_value_empty_memo [OF memo])
  then show ?thesis
    using call_loop_empty_memo [OF memo, of "[]" w "f # flds" fx] by auto
qed

text \<open>
  Claim C5: for a source object whose memo is not yet set, the first lookup sets the memo
  to some map; every later lookup, whatever its surroundings, returns that map and leaves
  object and effects as the first lookup left them; the requests of the whole run are
  none, one KV v2 read, or one KV v2 read and one KV v1 read; and when the first lookup
  raises, or its two read attempts both fail, the memo is the empty map.
\<close>

theorem fetch_memoized:
  assumes "dotenv_vars self = None"
  shows "\<exists>r m self1 fx1.
           read_vault_config w cs self fx = (r, self1, fx1) \<and>
           dotenv_vars self1 = Some m \<and>
           lookups ((w, cs) # ws) self fx = (r # replicate (length ws) (Inr m), self1, fx1) \<and>
           (r = Inr m \<or> (\<exists>e. r = Inl e \<and> m = [])) \<and>
           (requests fx1 = requests fx \<or> requests fx1 = requests fx @ [KV_v2]
              \<or> requests fx1 = requests fx @ [KV_v2, KV_v1]) \<and>
           (''VAULT_HOST'' \<in> dom (os_environ w) \<and> ''VAULT_TOKEN'' \<in> dom (os_environ w) \<and>
            isl (fst (read_kv w (os_environ w ''VAULT_HOST'', os_environ w ''VAULT_TOKEN'') fx))
              \<longrightarrow> m = [])"
proof -
  obtain r self1 fx1 where first: "read_vault_config w cs self fx = (r, self1, fx1)"
    by (cases "read_vault_config w cs self fx")
  obtain m where m: "dotenv_vars self1 = Some m"
    and r: "r = Inr m \<or> (\<exists>e. r = Inl e \<and> m = [])"
    using read_vault_config_sets_memo [OF first] by blast
  have later: "lookups ws self1 fx1 = (replicate (length ws) (Inr m), self1, fx1)"
    using m by (rule lookups_memo)
  have rq: "requests fx1 = requests fx \<or> requests fx1 = requests fx @ [KV_v2]
              \<or> requests fx1 = requests fx @ [KV_v2, KV_v1]"
    using read_vault_config_requests [OF first] .
  have failed: "m = []"
    if "''VAULT_HOST'' \<in> dom (os_environ w)" "''VAULT_TOKEN'' \<in> dom (os_environ w)"
       "isl (fst (read_kv w (os_environ w ''VAULT_HOST'', os_environ w ''VAULT_TOKEN'') fx))"
    using that first m assms
    by (auto simp: read_vault_config_def finish_def Let_def isl_def
             split: sum.splits if_splits prod.splits)
  have "read_vault_config w cs self fx = (r, self1, fx1) \<and>
        dotenv_vars self1 = Some m \<and>
        lookups ((w, cs) # ws) self fx = (r # replicate (length ws) (Inr m), self1, fx1) \<and>
        (r = Inr m \<or> (\<exists>e. r = Inl e \<and> m = [])) \<and>
        (requests fx1 = requests fx \<or> requests fx1 = requests fx @ [KV_v2]
           \<or> requests fx1 = requests fx @ [KV_v2, KV_v1]) \<and>
        (''VAULT_HOST'' \<in> dom (os_environ w) \<and> ''VAULT_TOKEN'' \<in> dom (os_environ w) \<and>
         isl (fst (read_kv w (os_environ w ''VAULT_HOST'', os_environ w ''VAULT_TOKEN'') fx))
           \<longrightarrow> m = [])"
    using first m later r rq failed by simp
  then show ?thesis by blast
qed

theorem fetch_memoized_witness:
  "lookups [(failing_store ConnectionError ConnectionError, False),
            (serving_store (PDict [(''db'', PStr ''x'')]), False)] blank no_effects =
     ([Inr [], Inr []], blank\<lparr>dotenv_vars := Some []\<rparr>,
      \<lparr>logged = [Error ''Error using kv2'' ConnectionError,
                 Error ''Connection error with Vault'' ConnectionError],
       requests = [KV_v2, KV_v1]\<rparr>)"
proof -
  have fresh: "dotenv_vars blank = None" by (simp add: blank_def)
  have first: "read_vault_config (failing_store ConnectionError ConnectionError) False blank
                 no_effects =
               (Inr [], blank\<lparr>dotenv_vars := Some []\<rparr>,
                \<lparr>logged = [Error ''Error using kv2'' ConnectionError,
                           Error ''Connection error with Vault'' ConnectionError],
                 requests = [KV_v2, KV_v1]\<rparr>)"
    by (simp add: read_vault_config_def read_kv_def kv_v2_attempt_def kv_v1_attempt_def
          failing_store_def blank_def no_effects_def finish_def send_def logger_error_def
          Let_def)
  from fetch_memoized [OF fresh, of "failing_store ConnectionError ConnectionError" False
         no_effects "[(serving_store (PDict [(''db'', PStr ''x'')]), False)]"]
  show ?thesis unfolding first by auto
qed

text \<open>
  Claim C4, at the input where the code leaves it: with endpoint and token set and a store
  that cannot be reached, the KV v2 read and then the KV v1 read raise the connection error
  of the HTTP library. The outer handlers name the builtin \<^verbatim>\<open>ConnectionError\<close> and
  \<^verbatim>\<open>TimeoutError\<close>, which this exception is not, so it leaves \<^verbatim>\<open>_read_vault_config\<close>:
  the lookup raises, and only the failure of the first attempt has been logged.
\<close>

theorem unreachable_store_raises:
  "read_vault_config (failing_store RequestsConnectionError RequestsConnectionError) False
     blank no_effects =
     (Inl RequestsConnectionError, blank\<lparr>dotenv_vars := Some []\<rparr>,
      \<lparr>logged = [Error ''Error using kv2'' RequestsConnectionError],
       requests = [KV_v2, KV_v1]\<rparr>)"
  by (simp add: read_vault_config_def read_kv_def kv_v2_attempt_def kv_v1_attempt_def
        failing_store_def blank_def no_effects_def finish_def send_def logger_error_def
        Let_def)

theorem unreachable_store_raises_witness:
  "lookups [(failing_store RequestsConnectionError RequestsConnectionError, False),
            (failing_store RequestsConnectionError RequestsConnectionError, False)]
     blank no_effects =
     ([Inl RequestsConnectionError, Inr []], blank\<lparr>dotenv_vars := Some []\<rparr>,
      \<lparr>logged = [Error ''Error using kv2'' RequestsConnectionError],
       requests = [KV_v2, KV_v1]\<rparr>)"
  using unreachable_store_raises by (simp add: read_vault_config_memo)

text \<open>
  What the code does keep of the fallback: on the first lookup with endpoint and token
  set, the KV v2 read is sent first; if that attempt succeeds no other request is sent, and
  on any exception of it the KV v1 read is sent exactly once; if both attempts fail and the
  second exception is of one of the five classes of the outer handlers, both failures are
  logged, the empty map is memoized and returned, and nothing is raised.
\<close>

lemma kv_v2_first_then_kv_v1_once:
  assumes "dotenv_vars self = None"
    and "os_environ w ''VAULT_HOST'' = Some h" and "os_environ w ''VAULT_TOKEN'' = Some t"
    and "read_vault_config w cs self fx = (r, self', fx')"
  shows "(\<forall>sd. kv_v2_attempt w (Some h, Some t) = Inr sd \<longrightarrow>
            requests fx' = requests fx @ [KV_v2]) \<and>
         (\<forall>e2. kv_v2_attempt w (Some h, Some t) = Inl e2 \<longrightarrow>
            requests fx' = requests fx @ [KV_v2, KV_v1]) \<and>
         (\<forall>e2 e1. kv_v2_attempt w (Some h, Some t) = Inl e2 \<and>
                  kv_v1_attempt w (Some h, Some t) = Inl e1 \<and>
                  e1 \<in> {VaultError, InvalidPath, UnexpectedError, ConnectionError, TimeoutError}
            \<longrightarrow> r = Inr [] \<and> dotenv_vars self' = Some [] \<and>
                logged fx' = logged fx @
                  [Error ''Error using kv2'' e2,
                   Error (if e1 \<in> {ConnectionError, TimeoutError}
                          then ''Connection error with Vault''
                          else ''Error reading from Vault'') e1])"
proof -
  let ?c = "(Some h, Some t)"
  have both: "''VAULT_HOST'' \<in> dom (os_environ w)" "''VAULT_TOKEN'' \<in> dom (os_environ w)"
    using assms(2,3) by auto
  obtain sd fx1 where rk: "read_kv w ?c fx = (sd, fx1)" by (cases "read_kv w ?c fx")
  have req: "requests fx' = requests fx1"
    using assms both rk
    by (auto simp: read_vault_config_def finish_def Let_def logger_error_def
             split: sum.splits if_splits)
  have req1: "requests fx1 =
                requests fx @ (if isl (kv_v2_attempt w ?c) then [KV_v2, KV_v1] else [KV_v2])"
    using requests_read_kv [of w ?c fx] rk by simp
  have a: "requests fx' = requests fx @ [KV_v2]" if "kv_v2_attempt w ?c = Inr sd'" for sd'
    using req req1 that by simp
  have b: "requests fx' = requests fx @ [KV_v2, KV_v1]" if "kv_v2_attempt w ?c = Inl e2" for e2
    using req req1 that by simp
  have c: "r = Inr [] \<and> dotenv_vars self' = Some [] \<and>
           logged fx' = logged fx @
             [Error ''Error using kv2'' e2,
              Error (if e1 \<in> {ConnectionError, TimeoutError}
                     then ''Connection error with Vault''
                     else ''Error reading from Vault'') e1]"
    if "kv_v2_attempt w ?c = Inl e2" "kv_v1_attempt w ?c = Inl e1"
       "e1 \<in> {VaultError, InvalidPath, UnexpectedError, ConnectionError, TimeoutError}"
    for e2 e1
  proof -
    have "read_kv w ?c fx =
            (Inl e1, send KV_v1 (logger_error ''Error using kv2'' e2 (send KV_v2 fx)))"
      using that(1,2) by (simp add: read_kv_def Let_def)
    then show ?thesis
      using assms both that(3)
      by (auto simp: read_vault_config_def finish_def Let_def logger_error_def send_def)
  qed
  show ?thesis using a b c by blast
qed

lemma kv_v2_first_then_kv_v1_once_example:
  "read_vault_config (failing_store OtherException VaultError) False blank no_effects =
     (Inr [], blank\<lparr>dotenv_vars := Some []\<rparr>,
      \<lparr>logged = [Error ''Error using kv2'' OtherException,
                 Error ''Error reading from Vault'' VaultError],
       requests = [KV_v2, KV_v1]\<rparr>)"
proof -
  let ?w = "failing_store OtherException VaultError"
  obtain r self' fx' where run: "read_vault_config ?w False blank no_effects = (r, self', fx')"
    by (cases "read_vault_config ?w False blank no_effects")
  have fresh: "dotenv_vars blank = None" by (simp add: blank_def)
  have h: "os_environ ?w ''VAULT_HOST'' = Some ''http://vault:8200''"
    and t: "os_environ ?w ''VAULT_TOKEN'' = Some ''token''"
    by (simp_all add: failing_store_def)
  have v2: "kv_v2_attempt ?w (Some ''http://vault:8200'', Some ''token'') = Inl OtherException"
    and v1: "kv_v1_attempt ?w (Some ''http://vault:8200'', Some ''token'') = Inl VaultError"
    by (simp_all add: kv_v2_attempt_def kv_v1_attempt_def failing_store_def)
  from kv_v2_first_then_kv_v1_once [OF fresh h t run] v2 v1
  have "r = Inr []" "dotenv_vars self' = Some []"
    "requests fx' = requests no_effects @ [KV_v2, KV_v1]"
    "logged fx' = logged no_effects @
       [Error ''Error using kv2'' OtherException, Error ''Error reading from Vault'' VaultError]"
    by auto
  moreover have "self' = blank\<lparr>dotenv_vars := dotenv_vars self'\<rparr>"
    using run
    by (auto simp: read_vault_config_def finish_def Let_def blank_def
             split: option.splits if_splits sum.splits prod.splits)
  ultimately show ?thesis
    unfolding run by (cases fx') (simp add: no_effects_def)
qed

section \<open>Flattening\<close>

text \<open>A dict filled by assignments, seen as a map: later assignments win, keys stay distinct.\<close>

lemma map_of_fold_update:
  "map_of (fold (\<lambda>(k, v). AList.update (f k) v) xs d) =
     map_of d ++ map_of (rev (map (\<lambda>(k, v). (f k, v)) xs))"
  by (induction xs arbitrary: d) (auto simp: update_conv' map_add_upd_left)

lemma distinct_fold_update:
  "distinct (map fst d) \<Longrightarrow> distinct (map fst (fold (\<lambda>(k, v). AList.update (f k) v) xs d))"
  by (induction xs arbitrary: d) (auto simp: distinct_update)

lemma keys_fold_update:
  "fst ` set (fold (\<lambda>(k, v). AList.update (f k) v) xs d) = f ` fst ` set xs \<union> fst ` set d"
proof (induction xs arbitrary: d)
  case Nil
  then show ?case by simp
next
  case (Cons x xs)
  obtain k v where x: "x = (k, v)" by (cases x)
  show ?case by (simp add: x Cons.IH dom_update)
qed

lemma map_of_rev_distinct:
  "distinct (map fst xs) \<Longrightarrow> map_of (rev xs) = map_of xs"
  by (rule map_of_inject_set [THEN iffD2]) (simp_all add: distinct_rev rev_map [symmetric])

lemma distinct_dict_update:
  "distinct (map fst d) \<Longrightarrow> distinct (map fst (dict_update d other))"
  unfolding dict_update_def using distinct_fold_update [of d id other] by simp

lemma distinct_flatten_items:
  "distinct (map fst items) \<Longrightarrow> distinct (map fst (flatten_items d prefix items))"
proof (induction d prefix items rule: flatten_items.induct)
  case (1 prefix items)
  then show ?case by simp
next
  case (2 key "value" rest prefix items)
  then show ?case
    by (cases "value") (simp_all add: Let_def distinct_update distinct_dict_update)
qed

lemma map_of_dict_update:
  "distinct (map fst other) \<Longrightarrow> map_of (dict_update d other) = map_of d ++ map_of other"
  unfolding dict_update_def
  using map_of_fold_update [of id other d] by (simp add: map_of_rev_distinct)

text \<open>Paths of leaves are not empty, so a key in front of one is joined by the separator.\<close>

lemma join_path_Cons: "path \<noteq> [] \<Longrightarrow> join_path (key # path) = key @ ''_'' @ join_path path"
  by (cases path) simp_all

lemma leaves_nonempty: "(path, v) \<in> set (leaves d) \<Longrightarrow> path \<noteq> []"
proof (induction d arbitrary: path v rule: leaves.induct)
  case 1
  then show ?case by simp
next
  case (2 key "value" rest)
  show ?case
  proof (cases "value")
    case (PDict sub)
    with 2 show ?thesis by auto blast
  qed (use 2 in auto)
qed


lemma leaves_under_key:
  "map (\<lambda>(path, v). (prefix @ ''_'' @ join_path path, v))
     (map (\<lambda>(path, v). (key # path, v)) (leaves d)) =
   map (\<lambda>(path, v). ((prefix @ ''_'' @ key) @ ''_'' @ join_path path, v)) (leaves d)"
  by (auto simp: join_path_Cons dest: leaves_nonempty)

lemma leaves_under_top_key:
  "map (\<lambda>(path, v). (join_path path, v))
     (map (\<lambda>(path, v). (key # path, v)) (leaves d)) =
   map (\<lambda>(path, v). (key @ ''_'' @ join_path path, v)) (leaves d)"
  by (auto simp: join_path_Cons dest: leaves_nonempty)

text \<open>
  The flattened dict as a map: under a prefix that is not empty, each leaf is stored under
  the prefix and its joined path; at the top, under its joined path, if no top-level key
  is empty.
\<close>

lemma map_add_single: "m(k \<mapsto> v) ++ r = m ++ ([k \<mapsto> v] ++ r)"
  by (rule ext) (simp add: map_add_def split: option.splits)

lemma flatten_items_leaf:
  assumes "\<And>sub. value \<noteq> PDict sub"
  shows "flatten_items ((key, value) # rest) prefix items =
           flatten_items rest prefix
             (AList.update (if prefix \<noteq> [] then prefix @ ''_'' @ key else key) value items)"
    and "leaves ((key, value) # rest) = ([key], value) # leaves rest"
  using assms by (cases "value"; simp)+

lemma flatten_items_prefixed:
  "prefix \<noteq> [] \<Longrightarrow>
     map_of (flatten_items d prefix items) =
       map_of items ++
       map_of (rev (map (\<lambda>(path, v). (prefix @ ''_'' @ join_path path, v)) (leaves d)))"
proof (induction d prefix items rule: flatten_items.induct)
  case (1 prefix items)
  then show ?case by simp
next
  case (2 key "value" rest prefix items)
  let ?kwp = "prefix @ ''_'' @ key"
  let ?R = "map_of (rev (map (\<lambda>(path, v). (prefix @ ''_'' @ join_path path, v)) (leaves rest)))"
  have kwp: "(if prefix \<noteq> [] then prefix @ ''_'' @ key else key) = ?kwp"
    using "2.prems" by simp
  show ?case
  proof (cases "\<exists>sub. value = PDict sub")
    case True
    then obtain sub where PDict: "value = PDict sub" ..
    have sub: "map_of (flatten_items sub ?kwp []) =
                 map_of (rev (map (\<lambda>(path, v). (?kwp @ ''_'' @ join_path path, v)) (leaves sub)))"
      using "2.IH"(5) [OF kwp [symmetric] PDict] by simp
    have dist: "distinct (map fst (flatten_items sub ?kwp []))"
      by (rule distinct_flatten_items) simp
    have "map_of (flatten_items ((key, value) # rest) prefix items) =
            map_of (dict_update items (flatten_items sub ?kwp [])) ++ ?R"
      using "2.IH"(6) [OF kwp [symmetric] PDict "2.prems"] "2.prems" by (simp add: PDict)
    also have "map_of (dict_update items (flatten_items sub ?kwp [])) =
                 map_of items ++ map_of (flatten_items sub ?kwp [])"
      by (rule map_of_dict_update [OF dist])
    finally show ?thesis
      using sub leaves_under_key [of prefix key sub]
      by (simp add: PDict del: map_map)
  next
    case False
    then have leaf: "\<And>sub. value \<noteq> PDict sub" by simp
    have "map_of (flatten_items rest prefix (AList.update ?kwp value items)) =
            map_of (AList.update ?kwp value items) ++ ?R"
      using "2.IH"(1-4) [OF kwp [symmetric] _ "2.prems"] leaf by (cases "value") auto
    then have "map_of (flatten_items ((key, value) # rest) prefix items) =
                 (map_of items)(?kwp \<mapsto> value) ++ ?R"
      by (simp only: flatten_items_leaf(1) [OF leaf] kwp update_conv')
    also have "\<dots> = map_of items ++ ([?kwp \<mapsto> value] ++ ?R)"
      by (rule map_add_single)
    finally show ?thesis
      by (simp add: flatten_items_leaf(2) [OF leaf] del: flatten_items.simps leaves.simps)
  qed
qed

lemma flatten_items_top:
  "[] \<notin> fst ` set d \<Longrightarrow>
     map_of (flatten_items d [] items) =
       map_of items ++ map_of (rev (map (\<lambda>(path, v). (join_path path, v)) (leaves d)))"
proof (induction d arbitrary: items)
  case Nil
  then show ?case by simp
next
  case (Cons kv rest)
  obtain key "value" where kv: "kv = (key, value)" by (cases kv)
  have key: "key \<noteq> []" and rest: "[] \<notin> fst ` set rest"
    using Cons.prems kv by auto
  let ?R = "map_of (rev (map (\<lambda>(path, v). (join_path path, v)) (leaves rest)))"
  show ?case
  proof (cases "\<exists>sub. value = PDict sub")
    case True
    then obtain sub where PDict: "value = PDict sub" ..
    have dist: "distinct (map fst (flatten_items sub key []))"
      by (rule distinct_flatten_items) simp
    have "map_of (flatten_items (kv # rest) [] items) =
            map_of (dict_update items (flatten_items sub key [])) ++ ?R"
      using Cons.IH [OF rest] by (simp add: kv PDict)
    also have "map_of (dict_update items (flatten_items sub key [])) =
                 map_of items ++ map_of (flatten_items sub key [])"
      by (rule map_of_dict_update [OF dist])
    finally show ?thesis
      using flatten_items_prefixed [OF key, of sub "[]"] leaves_under_top_key [of key sub]
      by (simp add: kv PDict del: map_map)
  next
    case False
    then have leaf: "\<And>sub. value \<noteq> PDict sub" by simp
    have "map_of (flatten_items (kv # rest) [] items) = (map_of items)(key \<mapsto> value) ++ ?R"
      by (simp only: kv flatten_items_leaf(1) [OF leaf] Cons.IH [OF rest] update_conv'
            refl if_False not_True_eq_False)
    also have "\<dots> = map_of items ++ ([key \<mapsto> value] ++ ?R)"
      by (rule map_add_single)
    finally show ?thesis
      by (simp add: kv flatten_items_leaf(2) [OF leaf] del: flatten_items.simps leaves.simps)
  qed
qed

text \<open>Lowercasing twice is lowercasing once, so every key of a lowercased dict is lowercase.\<close>

lemma lower_char_idem: "lower_char (lower_char c) = lower_char c"
  by (auto simp: lower_char_def split: if_splits)

lemma lower_idem: "lower (lower k) = lower k"
  by (simp add: lower_def lower_char_idem)

lemma keys_lower_keys:
  assumes "(k, v) \<in> set (lower_keys d)"
  shows "lower k = k"
proof -
  have "k \<in> fst ` set (lower_keys d)"
    using assms by force
  then have "k \<in> lower ` fst ` set d"
    using keys_fold_update [of lower d "[]"] by (simp add: lower_keys_def)
  then show ?thesis
    by (auto simp: lower_idem)
qed


text \<open>
  Claim C8 as stated fails: under a top-level key that is the empty string, the nested key
  is stored as it is, not joined to the empty key by the separator.
\<close>

theorem flatten_empty_top_key_counterexample:
  "flatten_json (PDict [([], PDict [(''a'', PStr ''x'')])]) [] = Inr [(''a'', PStr ''x'')] \<and>
   join_path [[], ''a''] = ''_a''"
  by (simp add: flatten_json_def dict_update_def)

text \<open>
  Claim C8, amended: flattening the nested mapping of the example yields exactly
  \<^verbatim>\<open>db_host\<close> and \<^verbatim>\<open>db_port\<close> with their values; for every nested mapping none of whose
  top-level keys is the empty string, the flattened map holds each leaf under the keys of
  its path joined by \<^verbatim>\<open>_\<close>, a later leaf replacing an earlier one with the same joined
  key; and after the first lookup of a source that is not case sensitive, every key of the
  memoized map is lowercase.
\<close>

theorem flatten_json_joins_keys:
  "flatten_json (PDict [(''db'', PDict [(''host'', PStr ''x''), (''port'', PStr ''5432'')])]) [] =
     Inr [(''db_host'', PStr ''x''), (''db_port'', PStr ''5432'')] \<and>
   ([] \<notin> fst ` set d \<longrightarrow>
      (\<exists>flat. flatten_json (PDict d) [] = Inr flat \<and>
         map_of flat = map_of (rev (map (\<lambda>(path, v). (join_path path, v)) (leaves d))))) \<and>
   (dotenv_vars self = None \<and> read_vault_config w False self fx = (r, self', fx') \<longrightarrow>
      (\<exists>m. dotenv_vars self' = Some m \<and> (\<forall>k \<in> fst ` set m. lower k = k)))"
proof (intro conjI impI)
  show "flatten_json (PDict [(''db'', PDict [(''host'', PStr ''x''), (''port'', PStr ''5432'')])]) [] =
          Inr [(''db_host'', PStr ''x''), (''db_port'', PStr ''5432'')]"
    by (simp add: flatten_json_def dict_update_def)
next
  assume "[] \<notin> fst ` set d"
  then have "map_of (flatten_items d [] []) =
               map_of (rev (map (\<lambda>(path, v). (join_path path, v)) (leaves d)))"
    using flatten_items_top [of d "[]"] by simp
  then show "\<exists>flat. flatten_json (PDict d) [] = Inr flat \<and>
               map_of flat = map_of (rev (map (\<lambda>(path, v). (join_path path, v)) (leaves d)))"
    by (simp add: flatten_json_def)
next
  assume a: "dotenv_vars self = None \<and> read_vault_config w False self fx = (r, self', fx')"
  then have "dotenv_vars self' = Some [] \<or> (\<exists>vars. dotenv_vars self' = Some (lower_keys vars))"
    by (auto simp: read_vault_config_def finish_def Let_def
             split: if_splits sum.splits prod.splits) blast
  then obtain vars where "dotenv_vars self' = Some (lower_keys vars)"
    using lower_keys_Nil by metis
  moreover have "lower k = k" if "k \<in> fst ` set (lower_keys vars)" for k
  proof -
    from that obtain v where "(k, v) \<in> set (lower_keys vars)" by force
    then show ?thesis by (rule keys_lower_keys)
  qed
  ultimately show "\<exists>m. dotenv_vars self' = Some m \<and> (\<forall>k \<in> fst ` set m. lower k = k)"
    by blast
qed

theorem flatten_json_joins_keys_witness:
  "map_of (lower_keys [(''DB_Host'', PStr ''x'')]) = [''db_host'' \<mapsto> PStr ''x''] \<and>
   (\<exists>flat. flatten_json (PDict [(''DB'', PDict [(''Host'', PStr ''x'')])]) [] = Inr flat \<and>
      map_of flat = [''DB_Host'' \<mapsto> PStr ''x''])"
  using flatten_json_joins_keys [of "[(''DB'', PDict [(''Host'', PStr ''x'')])]"]
  by (simp add: lower_keys_def lower_def lower_char_def)

section \<open>Source precedence\<close>









section \<open>The derived URI\<close>




section \<open>The singleton\<close>

text \<open>
  With the memo set, a field lookup and the whole call of the source change nothing, and
  their result does not depend on the surroundings.
\<close>

lemma get_field_value_memo:
  assumes "dotenv_vars self = Some m"
  shows "\<exists>value. \<forall>w. get_field_value w field field_info self fx = (Inr (value, field), self, fx)"
  using assms by (cases field_info) (simp_all add: get_field_value_def read_vault_config_memo)

lemma call_loop_memo:
  assumes "dotenv_vars self = Some m"
  shows "\<exists>r. \<forall>w. call_loop w flds result self fx = (Inr r, self, fx)"
proof (induction flds arbitrary: result)
  case Nil
  then show ?case by simp
next
  case (Cons f flds)
  obtain field_name field_info where f: "f = (field_name, field_info)" by (cases f)
  obtain "value" where
    v: "\<And>w. get_field_value w field_name field_info self fx = (Inr (value, field_name), self, fx)"
    using get_field_value_memo [OF assms] by blast
  show ?case
    using Cons.IH [of "if value \<noteq> PNone then AList.update field_name value result else result"]
    by (simp add: f v)
qed

text \<open>
  A call of the source either changes nothing, or it starts with the memo unset, sets it,
  and sends the requests of at most one fetch.
\<close>

lemma read_vault_config_self:
  assumes "read_vault_config w cs self fx = (r, self', fx')"
  shows "self' = self\<lparr>dotenv_vars := dotenv_vars self'\<rparr>"
  using assms
  by (auto simp: read_vault_config_def finish_def Let_def
           split: option.splits if_splits sum.splits prod.splits)

lemma get_field_value_effects:
  assumes "get_field_value w field field_info self fx = (r, self', fx')"
    and "dotenv_vars self = None"
  shows "self' = self\<lparr>dotenv_vars := dotenv_vars self'\<rparr> \<and> dotenv_vars self' \<noteq> None \<and>
         (requests fx' = requests fx \<or> requests fx' = requests fx @ [KV_v2]
            \<or> requests fx' = requests fx @ [KV_v2, KV_v1])"
proof -
  obtain r0 where rd: "read_vault_config w (case_sensitive self) self fx = (r0, self', fx')"
    using assms(1)
    by (auto simp: get_field_value_def split: prod.splits sum.splits annotation.splits)
  show ?thesis
    using read_vault_config_self [OF rd] read_vault_config_sets_memo [OF rd]
      read_vault_config_requests [OF rd]
    by auto
qed

lemma call_loop_effects:
  assumes "call_loop w flds result self fx = (r, self', fx')"
  shows "(self' = self \<and> fx' = fx) \<or>
         (dotenv_vars self = None \<and> dotenv_vars self' \<noteq> None \<and>
          self' = self\<lparr>dotenv_vars := dotenv_vars self'\<rparr> \<and>
          (requests fx' = requests fx \<or> requests fx' = requests fx @ [KV_v2]
             \<or> requests fx' = requests fx @ [KV_v2, KV_v1]))"
proof (cases "dotenv_vars self")
  case (Some m)
  then show ?thesis
    using call_loop_memo [OF Some, of flds result fx] assms by auto
next
  case None
  show ?thesis
  proof (cases flds)
    case Nil
    then show ?thesis using assms by simp
  next
    case (Cons f rest)
    obtain field_name field_info where f: "f = (field_name, field_info)" by (cases f)
    obtain r1 self1 fx1 where
      g: "get_field_value w field_name field_info self fx = (r1, self1, fx1)"
      by (cases "get_field_value w field_name field_info self fx")
    note e = get_field_value_effects [OF g None]
    then obtain m where m: "dotenv_vars self1 = Some m" by auto
    have "self' = self1 \<and> fx' = fx1"
    proof (cases r1)
      case (Inl ex)
      then show ?thesis using assms by (simp add: Cons f g)
    next
      case (Inr vk)
      obtain v k where vk: "vk = (v, k)" by (cases vk)
      have "call_loop w rest (if v \<noteq> PNone then AList.update k v result else result)
              self1 fx1 = (r, self', fx')"
        using assms by (simp add: Cons f g Inr vk)
      moreover obtain r2 where
        "call_loop w rest (if v \<noteq> PNone then AList.update k v result else result)
           self1 fx1 = (Inr r2, self1, fx1)"
        using call_loop_memo [OF m, of rest
                "if v \<noteq> PNone then AList.update k v result else result" fx1]
        by blast
      ultimately show ?thesis by simp
    qed
    then show ?thesis using e None by auto
  qed
qed


text \<open>Construction, the first time and every later time.\<close>

lemma construct_existing:
  assumes "cls_instance p = Some a" and "heap p a = Some self"
  shows "construct cls cs p =
           (a, p\<lparr>heap := (heap p)(a \<mapsto> self\<lparr>settings_cls := cls, case_sensitive := cs\<rparr>)\<rparr>)"
  using assms by (simp add: construct_def new_def init_def)

lemma construct_start:
  "construct cls cs start =
     (0, \<lparr>heap = [0 \<mapsto> blank\<lparr>settings_cls := cls, case_sensitive := cs\<rparr>],
          next_addr = Suc 0, cls_instance = Some 0\<rparr>)"
  by (simp add: construct_def new_def init_def start_def)

text \<open>A run in two parts.\<close>

lemma build_all_append:
  "build_all (xs @ ys) p fx =
     (case build_all xs p fx of
        (rs1, p1, fx1) \<Rightarrow>
          (case build_all ys p1 fx1 of (rs2, p2, fx2) \<Rightarrow> (rs1 @ rs2, p2, fx2)))"
proof (induction xs arbitrary: p fx)
  case Nil
  then show ?case by (simp split: prod.splits)
next
  case (Cons x xs)
  obtain w cls where x: "x = (w, cls)" by (cases x)
  show ?case
    by (simp add: x Cons.IH split: prod.splits)
qed

text \<open>
  Once the class attribute refers to an object, every construction returns that object,
  and the memo, once set, stays as it is.
\<close>

lemma build_all_instance:
  assumes "cls_instance p = Some a" and "heap p a = Some self"
    and "build_all runs p fx = (rs, p', fx')"
  shows "(\<forall>x \<in> set rs. fst x = a) \<and> cls_instance p' = Some a \<and>
         (\<exists>self'. heap p' a = Some self' \<and>
            ((dotenv_vars self' = dotenv_vars self \<and> fx' = fx) \<or>
             (dotenv_vars self = None \<and> dotenv_vars self' \<noteq> None \<and>
              (requests fx' = requests fx \<or> requests fx' = requests fx @ [KV_v2]
                 \<or> requests fx' = requests fx @ [KV_v2, KV_v1]))))"
  using assms
proof (induction runs arbitrary: p fx self rs)
  case Nil
  then show ?case by simp
next
  case (Cons x runs)
  obtain w cls where x: "x = (w, cls)" by (cases x)
  let ?s1 = "self\<lparr>settings_cls := cls, case_sensitive := False\<rparr>"
  let ?p1 = "p\<lparr>heap := (heap p)(a \<mapsto> ?s1)\<rparr>"
  have c: "construct cls False p = (a, ?p1)"
    using Cons.prems(1,2) by (rule construct_existing)
  obtain r s2 fx2 where call: "call w ?s1 fx = (r, s2, fx2)"
    by (cases "call w ?s1 fx")
  let ?p2 = "?p1\<lparr>heap := (heap ?p1)(a \<mapsto> s2)\<rparr>"
  have ca: "call_at w a ?p1 fx = (r, ?p2, fx2)"
    by (simp add: call_at_def call)
  obtain rs' where rest: "build_all runs ?p2 fx2 = (rs', p', fx')" and rs: "rs = (a, r) # rs'"
    using Cons.prems(3) by (auto simp: x c ca split: prod.splits)
  have inst2: "cls_instance ?p2 = Some a" "heap ?p2 a = Some s2"
    using Cons.prems(1) by simp_all
  note ih = Cons.IH [OF inst2 rest]
  have eff: "(s2 = ?s1 \<and> fx2 = fx) \<or>
             (dotenv_vars ?s1 = None \<and> dotenv_vars s2 \<noteq> None \<and>
              s2 = ?s1\<lparr>dotenv_vars := dotenv_vars s2\<rparr> \<and>
              (requests fx2 = requests fx \<or> requests fx2 = requests fx @ [KV_v2]
                 \<or> requests fx2 = requests fx @ [KV_v2, KV_v1]))"
    using call_loop_effects [of w "model_fields (settings_cls ?s1)" "[]" ?s1 fx r s2 fx2] call
    by (simp add: call_def)
  from ih obtain self' where self': "heap p' a = Some self'"
    and d: "(dotenv_vars self' = dotenv_vars s2 \<and> fx' = fx2) \<or>
            (dotenv_vars s2 = None \<and> dotenv_vars self' \<noteq> None \<and>
             (requests fx' = requests fx2 \<or> requests fx' = requests fx2 @ [KV_v2]
                \<or> requests fx' = requests fx2 @ [KV_v2, KV_v1]))"
    by blast
  have "(dotenv_vars self' = dotenv_vars self \<and> fx' = fx) \<or>
        (dotenv_vars self = None \<and> dotenv_vars self' \<noteq> None \<and>
         (requests fx' = requests fx \<or> requests fx' = requests fx @ [KV_v2]
            \<or> requests fx' = requests fx @ [KV_v2, KV_v1]))"
    using eff d by auto
  then show ?case
    using ih self' by (auto simp: rs)
qed

text \<open>
  Claim C10: in a process that starts with no instance and constructs and calls the source
  for any sequence of settings classes, in any surroundings, every construction returns the
  same object; the requests of the whole process are none, one KV v2 read, or one KV v2
  read and one KV v1 read; and once the memo of that object is set, a further construction
  for any settings class returns the same object again, whose call leaves the effects and
  the memo unchanged and gives a result that does not depend on the surroundings.
\<close>

theorem vault_source_singleton:
  assumes "build_all runs start no_effects = (rs, p, fx)"
  shows "(\<forall>x \<in> set rs. fst x = 0) \<and>
         (requests fx = [] \<or> requests fx = [KV_v2] \<or> requests fx = [KV_v2, KV_v1]) \<and>
         (\<forall>self m cls.
            heap p 0 = Some self \<and> dotenv_vars self = Some m \<longrightarrow>
              (\<exists>r. \<forall>w. \<exists>p' self'.
                 build_all (runs @ [(w, cls)]) start no_effects = (rs @ [(0, Inr r)], p', fx) \<and>
                 heap p' 0 = Some self' \<and> dotenv_vars self' = Some m))"
proof (cases runs)
  case Nil
  then show ?thesis
    using assms by (auto simp: start_def no_effects_def)
next
  case (Cons x rest)
  obtain w0 cls0 where x: "x = (w0, cls0)" by (cases x)
  let ?s0 = "blank\<lparr>settings_cls := cls0, case_sensitive := False\<rparr>"
  let ?p0 = "\<lparr>heap = [0 \<mapsto> ?s0], next_addr = Suc 0, cls_instance = Some 0\<rparr>"
  have inst0: "cls_instance ?p0 = Some 0" "heap ?p0 0 = Some ?s0"
    by simp_all
  have same: "construct cls0 False ?p0 = construct cls0 False start"
    by (simp add: construct_existing [OF inst0] construct_start)
  have from_p0: "build_all runs ?p0 no_effects = (rs, p, fx)"
    using assms same by (simp add: Cons x)
  note main = build_all_instance [OF inst0 from_p0]
  then have addrs: "\<forall>x \<in> set rs. fst x = 0" and inst: "cls_instance p = Some 0"
    by simp_all
  have reqs: "requests fx = [] \<or> requests fx = [KV_v2] \<or> requests fx = [KV_v2, KV_v1]"
    using main by (auto simp: no_effects_def blank_def)
  have share: "\<exists>r. \<forall>w. \<exists>p' self'.
                 build_all (runs @ [(w, cls)]) start no_effects = (rs @ [(0, Inr r)], p', fx) \<and>
                 heap p' 0 = Some self' \<and> dotenv_vars self' = Some m"
    if self: "heap p 0 = Some self" and m: "dotenv_vars self = Some m" for self m cls
  proof -
    let ?s1 = "self\<lparr>settings_cls := cls, case_sensitive := False\<rparr>"
    let ?p1 = "p\<lparr>heap := (heap p)(0 \<mapsto> ?s1)\<rparr>"
    have m1: "dotenv_vars ?s1 = Some m" using m by simp
    obtain r where r: "\<And>w. call w ?s1 fx = (Inr r, ?s1, fx)"
      using call_loop_memo [OF m1, of "model_fields (settings_cls ?s1)" "[]" fx]
      by (auto simp: call_def)
    have "build_all (runs @ [(w, cls)]) start no_effects = (rs @ [(0, Inr r)], ?p1, fx)" for w
      by (simp add: build_all_append assms construct_existing [OF inst self] call_at_def r)
    then show ?thesis
      using m1 by (intro exI [of _ r] allI exI [of _ ?p1] exI [of _ ?s1]) simp
  qed
  show ?thesis
    using addrs reqs share by blast
qed

text \<open>Lowercasing, one character at a time.\<close>

lemma lower_simps:
  "lower [] = []" "lower (c # cs) = lower_char c # lower cs"
  by (simp_all add: lower_def)

theorem vault_source_singleton_witness:
  "map fst (fst (build_all
      [(serving_store (PDict [(''HOST'', PStr ''db1'')]), PostgresConfig_cls),
       (failing_store ConnectionError ConnectionError, Config_cls)] start no_effects)) = [0, 0] \<and>
   requests (snd (snd (build_all
      [(serving_store (PDict [(''HOST'', PStr ''db1'')]), PostgresConfig_cls),
       (failing_store ConnectionError ConnectionError, Config_cls)] start no_effects))) = [KV_v2]"
proof -
  let ?w1 = "serving_store (PDict [(''HOST'', PStr ''db1'')])"
  let ?s1 = "blank\<lparr>settings_cls := PostgresConfig_cls, case_sensitive := False\<rparr>"
  let ?s2 = "blank\<lparr>settings_cls := PostgresConfig_cls, case_sensitive := False,
               dotenv_vars := Some [(''host'', PStr ''db1'')]\<rparr>"
  let ?fx1 = "\<lparr>logged = [Info ''Using KV v2 engine''], requests = [KV_v2]\<rparr>"
  let ?p1 = "\<lparr>heap = [0 \<mapsto> ?s2], next_addr = Suc 0, cls_instance = Some 0\<rparr>"
  have first: "call ?w1 ?s1 no_effects = (Inr [(''HOST'', PStr ''db1'')], ?s2, ?fx1)"
    by (simp add: call_def PostgresConfig_cls_def get_field_value_def read_vault_config_def
          read_kv_def kv_v2_attempt_def py_get_def dict_get_def flatten_json_def finish_def
          lower_keys_def lower_simps lower_char_def serving_store_def blank_def no_effects_def
          send_def logger_info_def Let_def)
  have run1: "build_all [(?w1, PostgresConfig_cls)] start no_effects =
                ([(0, Inr [(''HOST'', PStr ''db1'')])], ?p1, ?fx1)"
    by (simp add: construct_start call_at_def first)
  have "heap ?p1 0 = Some ?s2 \<and> dotenv_vars ?s2 = Some [(''host'', PStr ''db1'')]"
    by simp
  with vault_source_singleton [OF run1]
  obtain r where
    "\<And>w. \<exists>p' self'.
       build_all ([(?w1, PostgresConfig_cls)] @ [(w, Config_cls)]) start no_effects =
         ([(0, Inr [(''HOST'', PStr ''db1'')])] @ [(0, Inr r)], p', ?fx1) \<and>
       heap p' 0 = Some self' \<and> dotenv_vars self' = Some [(''host'', PStr ''db1'')]"
    by blast
  from this [of "failing_store ConnectionError ConnectionError"]
  show ?thesis by auto
qed

end
